theory Spec2Isabelle
  imports Main
begin

section \<open>Will.IAM: the permission model (models/permission.go)\<close>

subsection \<open>Go strings: \<open>strings.Split(s, "::")\<close> and \<open>strings.Join(parts, "::")\<close>\<close>

text \<open>
  A Go string is a sequence of bytes, as \<^typ>\<open>string\<close> is. \<open>strings.Split\<close> with the
  separator \<open>"::"\<close> cuts at the leftmost occurrence of the separator, then goes on behind
  it: \<open>"a:::b"\<close> gives \<open>["a", ":b"]\<close>, the empty string gives \<open>[""]\<close>, and the result
  is never empty. \<open>strings.Join\<close> puts the separator between the parts.
\<close>

fun Split :: "string \<Rightarrow> string list" where
  "Split [] = [[]]"
| "Split [c] = [[c]]"
| "Split (c # d # cs) =
     (if c = CHR '':'' \<and> d = CHR '':'' then [] # Split cs
      else (case Split (d # cs) of [] \<Rightarrow> [[c]] | p # ps \<Rightarrow> (c # p) # ps))"

fun Join :: "string list \<Rightarrow> string" where
  "Join [] = []"
| "Join [x] = x"
| "Join (x # y # ys) = x @ ''::'' @ Join (y # ys)"

subsection \<open>OwnershipLevel\<close>

type_synonym OwnershipLevel = string

definition Owner :: OwnershipLevel where
  "Owner = ''RO''"

definition Lender :: OwnershipLevel where
  "Lender = ''RL''"

text \<open>\<open>func (o OwnershipLevel) Less(oo OwnershipLevel) bool\<close>: Lender < Owner.\<close>

definition Less :: "OwnershipLevel \<Rightarrow> OwnershipLevel \<Rightarrow> bool" where
  "Less a b = (if a = Lender \<and> b = Owner then True else False)"

subsection \<open>Action and ResourceHierarchy\<close>

type_synonym Action = string

type_synonym ResourceHierarchy = string

definition All :: "string \<Rightarrow> bool" where
  "All rh = (rh = ''*'')"

text \<open>
  \<open>PermissionMatches\<close>: the loop \<open>for i := 1; i < len(parts); i++\<close>, which breaks at the
  first \<open>parts[i] == "*"\<close> and otherwise appends \<open>Join(parts[:i]) + "::*"\<close> to \<open>ret\<close>.
\<close>

function PermissionMatches_loop :: "string list \<Rightarrow> nat \<Rightarrow> string list \<Rightarrow> string list" where
  "PermissionMatches_loop parts i ret =
     (if i < length parts then
        (if parts ! i = ''*'' then ret
         else PermissionMatches_loop parts (Suc i) (ret @ [Join (take i parts) @ ''::*'']))
      else ret)"
  by pat_completeness auto
termination
  by (relation "measure (\<lambda>(parts, i, ret). length parts - i)") auto

declare PermissionMatches_loop.simps [simp del]

definition PermissionMatches :: "ResourceHierarchy \<Rightarrow> string list" where
  "PermissionMatches rh =
     (if rh = ''*'' then [rh]
      else PermissionMatches_loop (Split rh) 1 [''*''] @ [rh])"

record resourceHierarchy =
  size_rh :: nat
  hierarchy :: "string list"

definition buildResourceHierarchy :: "ResourceHierarchy \<Rightarrow> resourceHierarchy" where
  "buildResourceHierarchy rh = \<lparr>size_rh = length (Split rh), hierarchy = Split rh\<rparr>"

text \<open>
  \<open>Contains\<close>: the loop \<open>for i := range orhh.hierarchy\<close> with its three early returns;
  falling out of the loop returns true.
\<close>

function Contains_loop :: "string list \<Rightarrow> string list \<Rightarrow> nat \<Rightarrow> bool" where
  "Contains_loop rhh orhh i =
     (if i < length orhh then
        (if i \<ge> length rhh then False
         else if rhh ! i = ''*'' then True
         else if orhh ! i \<noteq> rhh ! i then False
         else Contains_loop rhh orhh (Suc i))
      else True)"
  by pat_completeness auto
termination
  by (relation "measure (\<lambda>(rhh, orhh, i). length orhh - i)") auto

declare Contains_loop.simps [simp del]

definition Contains :: "ResourceHierarchy \<Rightarrow> ResourceHierarchy \<Rightarrow> bool" where
  "Contains rh orh =
     (let rhh = buildResourceHierarchy rh; orhh = buildResourceHierarchy orh in
      if size_rh rhh > size_rh orhh then False
      else Contains_loop (hierarchy rhh) (hierarchy orhh) 0)"

subsection \<open>Permission\<close>

record Permission =
  ID :: string
  RoleID :: string
  Service :: string
  OwnershipLevel :: OwnershipLevel
  Action :: Action
  ResourceHierarchy :: ResourceHierarchy
  Alias :: string

text \<open>A Go \<open>error\<close> built by \<open>fmt.Errorf\<close> is its message.\<close>

type_synonym error = string

text \<open>The loop \<open>for _, part := range parts\<close> of \<open>ValidatePermission\<close>.\<close>

fun ValidatePermission_parts :: "string list \<Rightarrow> bool \<times> error option" where
  "ValidatePermission_parts [] = (True, None)"
| "ValidatePermission_parts (part # parts) =
     (if part = [] then (False, Some ''No parts can be empty'')
      else ValidatePermission_parts parts)"

definition ValidatePermission :: "string \<Rightarrow> bool \<times> error option" where
  "ValidatePermission str =
     (let parts = Split str in
      if length parts < 4 then
        (False, Some (''Incomplete permission. Expected format: '' @
                      ''Service::OwnershipLevel::Action::{ResourceHierarchy}''))
      else if parts ! 1 \<noteq> Owner \<and> parts ! 1 \<noteq> Lender then
        (False, Some ''OwnershipLevel needs to be RO or RL'')
      else ValidatePermission_parts parts)"

text \<open>
  \<open>BuildPermission\<close> returns a Permission and an error, as the Go function does: the
  zero value \<open>Permission{}\<close> with the error of the validation, or the Permission built
  from the parts with no error.
\<close>

definition Permission_zero :: Permission where
  "Permission_zero = \<lparr>ID = [], RoleID = [], Service = [], OwnershipLevel = [], Action = [],
                       ResourceHierarchy = [], Alias = []\<rparr>"

definition BuildPermission :: "string \<Rightarrow> Permission \<times> error option" where
  "BuildPermission str =
     (case ValidatePermission str of
        (False, err) \<Rightarrow> (Permission_zero, err)
      | (True, _) \<Rightarrow>
          (let parts = Split str in
           (\<lparr>ID = [], RoleID = [], Service = parts ! 0, OwnershipLevel = parts ! 1,
             Action = parts ! 2, ResourceHierarchy = Join (drop 3 parts), Alias = []\<rparr>, None)))"

text \<open>\<open>IsPresent\<close>: \<open>continue\<close> goes on with the rest of the slice.\<close>

fun IsPresent :: "Permission \<Rightarrow> Permission list \<Rightarrow> bool" where
  "IsPresent p [] = False"
| "IsPresent p (pp # permissions) =
     (if (Service pp \<noteq> ''*'' \<and> Service pp \<noteq> Service p) \<or>
         (Action pp \<noteq> ''*'' \<and> Action pp \<noteq> Action p) \<or>
         Less (OwnershipLevel pp) (OwnershipLevel p)
      then IsPresent p permissions
      else if Contains (ResourceHierarchy pp) (ResourceHierarchy p) then True
      else IsPresent p permissions)"

text \<open>\<open>fmt.Sprintf("%s::%s::%s::%s", ...)\<close>.\<close>

definition String :: "Permission \<Rightarrow> string" where
  "String p = Service p @ ''::'' @ OwnershipLevel p @ ''::'' @ Action p @ ''::'' @
              ResourceHierarchy p"

text \<open>
  The enumeration of \<open>PermissionMatches\<close> as the specification words it, for comparison
  with the code: the universal wildcard, then the wildcard-terminated proper prefixes of
  increasing length, stopping before any segment that is itself \<open>"*"\<close>, then the
  literal hierarchy.
\<close>

definition PermissionMatches_spec :: "ResourceHierarchy \<Rightarrow> string list" where
  "PermissionMatches_spec rh =
     (if rh = ''*'' then [''*'']
      else ''*'' #
           map (\<lambda>i. Join (take i (Split rh)) @ ''::*'')
               [1 ..< length (takeWhile (\<lambda>s. s \<noteq> ''*'') (Split rh))] @
           [rh])"

text \<open>
  The walk of \<open>Contains\<close> on the segments that are left, used to reason about
  \<open>Contains_loop\<close>.
\<close>

fun walk :: "string list \<Rightarrow> string list \<Rightarrow> bool" where
  "walk rs [] = True"
| "walk [] (x # xs) = False"
| "walk (r # rs) (x # xs) = (if r = ''*'' then True else if x \<noteq> r then False else walk rs xs)"

section \<open>The attribution use case (usecases/permissions.go)\<close>

subsection \<open>The store the use case works on\<close>

text \<open>
  Modelled from the spec: \<open>models.ServiceAccount\<close> is not among the sources; its fields
  are the columns that \<open>repositories.ServiceAccounts\<close> selects.
\<close>

record ServiceAccount =
  sa_ID :: string
  Name :: string
  KeyID :: string
  KeySecret :: string
  Email :: string
  BaseRoleID :: string

text \<open>
  Modelled from the spec: \<open>repositories.All\<close>, its \<open>Permissions.Create\<close> and its
  \<open>ServiceAccounts.ForEmails\<close> are not among the sources. They are parameters here: a
  create maps a permission and the store's state to an error or to the new state, and the
  resolution of emails reads the store's state and gives an error or the accounts.
\<close>

record 'db All =
  Permissions_Create :: "Permission \<Rightarrow> 'db \<Rightarrow> error + 'db"
  ServiceAccounts_ForEmails :: "string list \<Rightarrow> 'db \<Rightarrow> error + ServiceAccount list"

text \<open>
  What a call does to the store is observed in two parts: the state of the store, and the
  trace of the operations issued on it.
\<close>

datatype event = Begin | CreateCall Permission | Commit | Rollback

record 'db World =
  store :: 'db
  trace :: "event list"

definition repo_Create :: "'db All \<Rightarrow> Permission \<Rightarrow> 'db World \<Rightarrow> error option \<times> 'db World" where
  "repo_Create repo p w =
     (case Permissions_Create repo p (store w) of
        Inl err \<Rightarrow> (Some err, w\<lparr>trace := trace w @ [CreateCall p]\<rparr>)
      | Inr d \<Rightarrow> (None, w\<lparr>store := d, trace := trace w @ [CreateCall p]\<rparr>))"

text \<open>
  Modelled from the spec: \<open>WithPGTx\<close> is not among the sources. The specification's
  \<open>withTransaction(work)\<close> runs \<open>work\<close> against a scoped handle and commits or rolls
  back on the error \<open>work\<close> returns; a rollback restores the state of the store at the
  beginning of the transaction.
\<close>

definition WithPGTx ::
  "('db World \<Rightarrow> error option \<times> 'db World) \<Rightarrow> 'db World \<Rightarrow> error option \<times> 'db World" where
  "WithPGTx work w =
     (case work (w\<lparr>trace := trace w @ [Begin]\<rparr>) of
        (Some err, w') \<Rightarrow> (Some err, \<lparr>store = store w, trace = trace w' @ [Rollback]\<rparr>)
      | (None, w') \<Rightarrow> (None, w'\<lparr>trace := trace w' @ [Commit]\<rparr>))"

subsection \<open>Attribute and AttributeToEmails\<close>

record PermissionsAttribute =
  RolesIDs :: "string list"
  PermissionsStrings :: "string list"
  PermissionsAliases :: "string \<rightharpoonup> string"
  Permissions :: "Permission list"

record PermissionsAttributeToEmails =
  Emails :: "string list"
  PermissionsStrings_e :: "string list"
  PermissionsAliases_e :: "string \<rightharpoonup> string"
  Permissions_e :: "Permission list"

text \<open>
  The inner loop \<open>for _, permission := range pa.Permissions\<close>, the same in both use
  cases: the loop variable is a copy of the element, its \<open>RoleID\<close> is set, and the copy
  is created; the first error returns.
\<close>

fun Attribute_permissions ::
  "'db All \<Rightarrow> string \<Rightarrow> Permission list \<Rightarrow> 'db World \<Rightarrow> error option \<times> 'db World" where
  "Attribute_permissions repo roleID [] w = (None, w)"
| "Attribute_permissions repo roleID (permission # permissions) w =
     (case repo_Create repo (permission\<lparr>RoleID := roleID\<rparr>) w of
        (Some err, w') \<Rightarrow> (Some err, w')
      | (None, w') \<Rightarrow> Attribute_permissions repo roleID permissions w')"

text \<open>The outer loop \<open>for _, roleID := range pa.RolesIDs\<close>.\<close>

fun Attribute_roles ::
  "'db All \<Rightarrow> string list \<Rightarrow> Permission list \<Rightarrow> 'db World \<Rightarrow> error option \<times> 'db World" where
  "Attribute_roles repo [] permissions w = (None, w)"
| "Attribute_roles repo (roleID # rolesIDs) permissions w =
     (case Attribute_permissions repo roleID permissions w of
        (Some err, w') \<Rightarrow> (Some err, w')
      | (None, w') \<Rightarrow> Attribute_roles repo rolesIDs permissions w')"

definition Attribute :: "'db All \<Rightarrow> PermissionsAttribute \<Rightarrow> 'db World \<Rightarrow> error option \<times> 'db World" where
  "Attribute repo pa w = WithPGTx (Attribute_roles repo (RolesIDs pa) (Permissions pa)) w"

text \<open>The outer loop \<open>for _, sa := range sas\<close>.\<close>

fun AttributeToEmails_sas ::
  "'db All \<Rightarrow> ServiceAccount list \<Rightarrow> Permission list \<Rightarrow> 'db World \<Rightarrow> error option \<times> 'db World" where
  "AttributeToEmails_sas repo [] permissions w = (None, w)"
| "AttributeToEmails_sas repo (sa # sas) permissions w =
     (case Attribute_permissions repo (BaseRoleID sa) permissions w of
        (Some err, w') \<Rightarrow> (Some err, w')
      | (None, w') \<Rightarrow> AttributeToEmails_sas repo sas permissions w')"

definition AttributeToEmails ::
  "'db All \<Rightarrow> PermissionsAttributeToEmails \<Rightarrow> 'db World \<Rightarrow> error option \<times> 'db World" where
  "AttributeToEmails repo pa w =
     (case ServiceAccounts_ForEmails repo (Emails pa) (store w) of
        Inl err \<Rightarrow> (Some err, w)
      | Inr sas \<Rightarrow> WithPGTx (AttributeToEmails_sas repo sas (Permissions_e pa)) w)"

subsection \<open>Notions used to state the properties\<close>

text \<open>
  The copies one call writes: for each role id in turn, each template with its
  \<open>RoleID\<close> set to that role id.
\<close>

definition writes :: "string list \<Rightarrow> Permission list \<Rightarrow> Permission list" where
  "writes rolesIDs permissions =
     concat (map (\<lambda>roleID. map (\<lambda>permission. permission\<lparr>RoleID := roleID\<rparr>) permissions) rolesIDs)"

text \<open>Creating a list of permissions one after the other, up to the first error.\<close>

fun creates :: "'db All \<Rightarrow> Permission list \<Rightarrow> 'db \<Rightarrow> error + 'db" where
  "creates repo [] d = Inr d"
| "creates repo (p # ps) d =
     (case Permissions_Create repo p d of Inl err \<Rightarrow> Inl err | Inr d' \<Rightarrow> creates repo ps d')"

fun run_creates :: "'db All \<Rightarrow> Permission list \<Rightarrow> 'db World \<Rightarrow> error option \<times> 'db World" where
  "run_creates repo [] w = (None, w)"
| "run_creates repo (p # ps) w =
     (case repo_Create repo p w of
        (Some err, w') \<Rightarrow> (Some err, w')
      | (None, w') \<Rightarrow> run_creates repo ps w')"

subsection \<open>A store in memory, for concrete runs\<close>

text \<open>
  Modelled from the spec: a store that holds its service accounts and its permissions in
  two lists. A create appends the permission unless the store rejects it. \<open>ForEmail\<close>
  is the one of \<open>repositories.ServiceAccounts\<close>: the first account with that email, an
  error when there is none; \<open>ForEmails\<close>, which is not among the sources, resolves
  every email and fails when one of them fails.
\<close>

record MemDB =
  accounts :: "ServiceAccount list"
  permissions :: "Permission list"

definition ForEmail :: "string \<Rightarrow> ServiceAccount list \<Rightarrow> error + ServiceAccount" where
  "ForEmail email sas =
     (case filter (\<lambda>sa. Email sa = email) sas of
        [] \<Rightarrow> Inl (''Service Account not found for email '' @ email)
      | sa # _ \<Rightarrow>
          (if sa_ID sa = [] then Inl (''Service Account not found for email '' @ email)
           else Inr sa))"

fun ForEmails :: "string list \<Rightarrow> ServiceAccount list \<Rightarrow> error + ServiceAccount list" where
  "ForEmails [] sas = Inr []"
| "ForEmails (email # emails) sas =
     (case ForEmail email sas of
        Inl err \<Rightarrow> Inl err
      | Inr sa \<Rightarrow> (case ForEmails emails sas of Inl err \<Rightarrow> Inl err | Inr r \<Rightarrow> Inr (sa # r)))"

definition mem_repo :: "(Permission \<Rightarrow> bool) \<Rightarrow> MemDB All" where
  "mem_repo rejects =
     \<lparr>Permissions_Create =
        (\<lambda>p d. if rejects p then Inl ''create failed''
               else Inr (d\<lparr>permissions := permissions d @ [p]\<rparr>)),
      ServiceAccounts_ForEmails = (\<lambda>emails d. ForEmails emails (accounts d))\<rparr>"

definition perm :: "string \<Rightarrow> Permission" where
  "perm a = \<lparr>ID = [], RoleID = [], Service = ''iam'', OwnershipLevel = ''RL'', Action = a,
             ResourceHierarchy = ''role::*'', Alias = []\<rparr>"

text \<open>A permission given by its service, ownership level, action and hierarchy.\<close>

definition grant :: "string \<Rightarrow> OwnershipLevel \<Rightarrow> Action \<Rightarrow> ResourceHierarchy \<Rightarrow> Permission" where
  "grant svc ol a rh = \<lparr>ID = [], RoleID = [], Service = svc, OwnershipLevel = ol, Action = a,
                         ResourceHierarchy = rh, Alias = []\<rparr>"

text \<open>
  A store with one account and one permission, a request of two roles and two templates,
  a request by an email that no account has, and a store that rejects the second write of
  the two-by-two request.
\<close>

definition world0 :: "MemDB World" where
  "world0 =
     \<lparr>store =
        \<lparr>accounts = [\<lparr>sa_ID = ''sa1'', Name = ''b'', KeyID = [], KeySecret = [],
                      Email = ''b@x.com'', BaseRoleID = ''r1''\<rparr>],
         permissions = [(perm ''list'')\<lparr>RoleID := ''r0''\<rparr>]\<rparr>,
      trace = []\<rparr>"

definition two_by_two :: PermissionsAttribute where
  "two_by_two =
     \<lparr>RolesIDs = [''r1'', ''r2''], PermissionsStrings = [], PermissionsAliases = Map.empty,
      Permissions = [perm ''read'', perm ''write'']\<rparr>"

definition to_unknown_email :: PermissionsAttributeToEmails where
  "to_unknown_email =
     \<lparr>Emails = [''a@x.com''], PermissionsStrings_e = [], PermissionsAliases_e = Map.empty,
      Permissions_e = [perm ''read'']\<rparr>"

definition to_known_email :: PermissionsAttributeToEmails where
  "to_known_email =
     \<lparr>Emails = [''b@x.com''], PermissionsStrings_e = [], PermissionsAliases_e = Map.empty,
      Permissions_e = [perm ''read'', perm ''write'']\<rparr>"

definition second_write :: "Permission \<Rightarrow> bool" where
  "second_write p = (RoleID p = ''r1'' \<and> Action p = ''write'')"

definition no_write :: "Permission \<Rightarrow> bool" where
  "no_write p = False"

section \<open>Properties\<close>

subsection \<open>Splitting and joining\<close>

lemma Split_not_Nil: "Split s \<noteq> []"
  by (induction s rule: Split.induct) (auto split: list.splits)

lemma Join_Split: "Join (Split s) = s"
proof (induction s rule: Split.induct)
  case (3 c d cs)
  show ?case
  proof (cases "c = CHR '':'' \<and> d = CHR '':''")
    case True
    with 3 show ?thesis
      by (cases "Split cs") (auto simp: Split_not_Nil)
  next
    case False
    obtain p ps where sp: "Split (d # cs) = p # ps"
      using Split_not_Nil [of "d # cs"] by (cases "Split (d # cs)") auto
    from False 3 sp have "Join (p # ps) = d # cs" by auto
    then have "Join ((c # p) # ps) = c # d # cs" by (cases ps) auto
    with False sp show ?thesis by auto
  qed
qed simp_all

lemma Join_4: "rest \<noteq> [] \<Longrightarrow> Join (a # b # c # rest) = a @ ''::'' @ b @ ''::'' @ c @ ''::'' @ Join rest"
  by (cases rest) auto

subsection \<open>The loops, in closed form\<close>

lemma Contains_loop_walk: "Contains_loop rs xs i = walk (drop i rs) (drop i xs)"
proof (induction rs xs i rule: Contains_loop.induct)
  case (1 rhh orhh i)
  show ?case
  proof (cases "i < length orhh")
    case False
    then show ?thesis by (simp add: Contains_loop.simps)
  next
    case True
    note lt = this
    then have dx: "drop i orhh = orhh ! i # drop (Suc i) orhh"
      by (simp add: Cons_nth_drop_Suc)
    show ?thesis
    proof (cases "i < length rhh")
      case False
      then show ?thesis using lt dx by (simp add: Contains_loop.simps)
    next
      case True
      then have dr: "drop i rhh = rhh ! i # drop (Suc i) rhh"
        by (simp add: Cons_nth_drop_Suc)
      show ?thesis
        using 1 lt True dx dr
        by (subst Contains_loop.simps) auto
    qed
  qed
qed

lemma walk_char:
  "length rs \<le> length xs \<Longrightarrow>
   walk rs xs \<longleftrightarrow> ((\<exists>k<length rs. rs ! k = ''*'' \<and> take k rs = take k xs) \<or> rs = xs)"
proof (induction rs xs rule: walk.induct)
  case (1 rs)
  then show ?case by simp
next
  case (2 x xs)
  then show ?case by simp
next
  case (3 r rs x xs)
  show ?case
  proof (cases "r = ''*''")
    case True
    then show ?thesis by auto
  next
    case False
    note ns = this
    show ?thesis
    proof (cases "x = r")
      case False
      have "\<not> (\<exists>k<length (r # rs). (r # rs) ! k = ''*'' \<and> take k (r # rs) = take k (x # xs))"
      proof
        assume "\<exists>k<length (r # rs). (r # rs) ! k = ''*'' \<and> take k (r # rs) = take k (x # xs)"
        then obtain k where k: "k < length (r # rs)" "(r # rs) ! k = ''*''" "take k (r # rs) = take k (x # xs)"
          by blast
        then show False using ns False by (cases k) auto
      qed
      with False ns show ?thesis by auto
    next
      case True
      have ih: "walk rs xs \<longleftrightarrow> ((\<exists>k<length rs. rs ! k = ''*'' \<and> take k rs = take k xs) \<or> rs = xs)"
        using 3 ns True by simp
      have "(\<exists>k<length (r # rs). (r # rs) ! k = ''*'' \<and> take k (r # rs) = take k (x # xs))
            \<longleftrightarrow> (\<exists>k<length rs. rs ! k = ''*'' \<and> take k rs = take k xs)"
      proof
        assume "\<exists>k<length (r # rs). (r # rs) ! k = ''*'' \<and> take k (r # rs) = take k (x # xs)"
        then obtain k where k: "k < length (r # rs)" "(r # rs) ! k = ''*''" "take k (r # rs) = take k (x # xs)"
          by blast
        then obtain j where "k = Suc j" using ns by (cases k) auto
        with k show "\<exists>k<length rs. rs ! k = ''*'' \<and> take k rs = take k xs" by auto
      next
        assume "\<exists>k<length rs. rs ! k = ''*'' \<and> take k rs = take k xs"
        then obtain k where k: "k < length rs" "rs ! k = ''*''" "take k rs = take k xs" by blast
        then have "Suc k < length (r # rs) \<and> (r # rs) ! Suc k = ''*'' \<and> take (Suc k) (r # rs) = take (Suc k) (x # xs)"
          using True by simp
        then show "\<exists>k<length (r # rs). (r # rs) ! k = ''*'' \<and> take k (r # rs) = take k (x # xs)" by blast
      qed
      with ih ns True show ?thesis by simp
    qed
  qed
qed

lemma PermissionMatches_loop_eq:
  "PermissionMatches_loop parts i ret =
     ret @ map (\<lambda>j. Join (take j parts) @ ''::*'')
               [i ..< i + length (takeWhile (\<lambda>s. s \<noteq> ''*'') (drop i parts))]"
proof (induction parts i ret rule: PermissionMatches_loop.induct)
  case (1 parts i ret)
  show ?case
  proof (cases "i < length parts")
    case False
    then show ?thesis by (simp add: PermissionMatches_loop.simps)
  next
    case True
    then have d: "drop i parts = parts ! i # drop (Suc i) parts"
      by (simp add: Cons_nth_drop_Suc)
    show ?thesis
    proof (cases "parts ! i = ''*''")
      case True
      with \<open>i < length parts\<close> d show ?thesis
        by (simp add: PermissionMatches_loop.simps)
    next
      case False
      define n where "n = length (takeWhile (\<lambda>s. s \<noteq> ''*'') (drop (Suc i) parts))"
      have u: "[i ..< i + Suc n] = i # [Suc i ..< Suc i + n]"
        by (simp add: upt_rec [of i])
      have "PermissionMatches_loop parts i ret =
              PermissionMatches_loop parts (Suc i) (ret @ [Join (take i parts) @ ''::*''])"
        using False \<open>i < length parts\<close> by (subst PermissionMatches_loop.simps) simp
      also have "\<dots> = (ret @ [Join (take i parts) @ ''::*'']) @
                map (\<lambda>j. Join (take j parts) @ ''::*'') [Suc i ..< Suc i + n]"
        using 1 False \<open>i < length parts\<close> by (simp add: n_def)
      also have "\<dots> = ret @ map (\<lambda>j. Join (take j parts) @ ''::*'') [i ..< i + Suc n]"
        by (simp only: u list.map append_assoc append_Cons append_Nil)
      finally show ?thesis
        using False d by (simp add: n_def)
    qed
  qed
qed

lemma ValidatePermission_parts_eq:
  "ValidatePermission_parts ps =
     (if [] \<in> set ps then (False, Some ''No parts can be empty'') else (True, None))"
  by (induction ps) auto

lemma IsPresent_exists:
  "IsPresent p H \<longleftrightarrow>
     (\<exists>h \<in> set H. (Service h = ''*'' \<or> Service h = Service p) \<and>
                  (Action h = ''*'' \<or> Action h = Action p) \<and>
                  \<not> Less (OwnershipLevel h) (OwnershipLevel p) \<and>
                  Contains (ResourceHierarchy h) (ResourceHierarchy p))"
  by (induction H) auto

subsection \<open>The attribution loops as one run of creates\<close>

lemma run_creates_append:
  "run_creates repo (xs @ ys) w =
     (case run_creates repo xs w of
        (Some err, w') \<Rightarrow> (Some err, w')
      | (None, w') \<Rightarrow> run_creates repo ys w')"
  by (induction xs arbitrary: w) (auto split: prod.splits option.splits)

lemma Attribute_permissions_run:
  "Attribute_permissions repo roleID ps w =
     run_creates repo (map (\<lambda>permission. permission\<lparr>RoleID := roleID\<rparr>) ps) w"
  by (induction ps arbitrary: w) (auto split: prod.splits option.splits)

lemma Attribute_roles_run:
  "Attribute_roles repo rs ps w = run_creates repo (writes rs ps) w"
proof (induction rs arbitrary: w)
  case Nil
  show ?case by (simp add: writes_def)
next
  case (Cons r rs)
  have "writes (r # rs) ps = map (\<lambda>permission. permission\<lparr>RoleID := r\<rparr>) ps @ writes rs ps"
    by (simp add: writes_def)
  then show ?case
    using Cons by (simp add: run_creates_append Attribute_permissions_run split: prod.splits option.splits)
qed

lemma AttributeToEmails_sas_run:
  "AttributeToEmails_sas repo sas ps w = run_creates repo (writes (map BaseRoleID sas) ps) w"
proof (induction sas arbitrary: w)
  case Nil
  show ?case by (simp add: writes_def)
next
  case (Cons r rs)
  have "writes (map BaseRoleID (r # rs)) ps =
          map (\<lambda>permission. permission\<lparr>RoleID := BaseRoleID r\<rparr>) ps @ writes (map BaseRoleID rs) ps"
    by (simp add: writes_def)
  then show ?case
    using Cons by (simp add: run_creates_append Attribute_permissions_run split: prod.splits option.splits)
qed

lemma run_creates_store:
  "run_creates repo xs w = (r, w') \<Longrightarrow>
     (case creates repo xs (store w) of
        Inl err \<Rightarrow> r = Some err
      | Inr d \<Rightarrow> r = None \<and> store w' = d)"
proof (induction xs arbitrary: w)
  case Nil
  then show ?case by auto
next
  case (Cons x xs)
  show ?case
  proof (cases "Permissions_Create repo x (store w)")
    case (Inl e)
    with Cons.prems show ?thesis by (auto simp: repo_Create_def)
  next
    case (Inr d)
    with Cons.prems have "run_creates repo xs (w\<lparr>store := d, trace := trace w @ [CreateCall x]\<rparr>) = (r, w')"
      by (simp add: repo_Create_def)
    from Cons.IH [OF this] Inr show ?thesis by simp
  qed
qed

lemma run_creates_trace:
  "run_creates repo xs w = (r, w') \<Longrightarrow>
   \<exists>k\<le>length xs.
      trace w' = trace w @ map CreateCall (take k xs) \<and>
      (r = None \<longrightarrow> k = length xs) \<and> (r \<noteq> None \<longrightarrow> 0 < k)"
proof (induction xs arbitrary: w)
  case Nil
  then show ?case by simp
next
  case (Cons x xs)
  show ?case
  proof (cases "Permissions_Create repo x (store w)")
    case (Inl e)
    with Cons.prems have "r = Some e" "w' = w\<lparr>trace := trace w @ [CreateCall x]\<rparr>"
      by (simp_all add: repo_Create_def)
    then have "1 \<le> length (x # xs) \<and> trace w' = trace w @ map CreateCall (take 1 (x # xs)) \<and>
      (r = None \<longrightarrow> 1 = length (x # xs)) \<and> (r \<noteq> None \<longrightarrow> 0 < (1::nat))"
      by simp
    then show ?thesis by (rule exI [of _ 1])
  next
    case (Inr d)
    define w1 where "w1 = w\<lparr>store := d, trace := trace w @ [CreateCall x]\<rparr>"
    have "run_creates repo xs w1 = (r, w')"
      using Inr Cons.prems by (simp add: repo_Create_def w1_def)
    from Cons.IH [OF this] obtain k where k: "k \<le> length xs"
      "trace w' = trace w1 @ map CreateCall (take k xs)"
      "r = None \<longrightarrow> k = length xs"
      by blast
    have "trace w1 = trace w @ [CreateCall x]"
      by (simp add: w1_def)
    with k have "Suc k \<le> length (x # xs) \<and>
      trace w' = trace w @ map CreateCall (take (Suc k) (x # xs)) \<and>
      (r = None \<longrightarrow> Suc k = length (x # xs)) \<and> (r \<noteq> None \<longrightarrow> 0 < Suc k)"
      by simp
    then show ?thesis by (rule exI [of _ "Suc k"])
  qed
qed

lemma WithPGTx_fails:
  assumes "creates repo xs (store w) = Inl err"
  shows "fst (WithPGTx (run_creates repo xs) w) = Some err"
    and "store (snd (WithPGTx (run_creates repo xs) w)) = store w"
proof -
  obtain r w' where rw: "run_creates repo xs (w\<lparr>trace := trace w @ [Begin]\<rparr>) = (r, w')"
    by (cases "run_creates repo xs (w\<lparr>trace := trace w @ [Begin]\<rparr>)")
  from run_creates_store [OF rw] assms have r: "r = Some err" by simp
  show "fst (WithPGTx (run_creates repo xs) w) = Some err"
    by (simp add: WithPGTx_def rw r)
  show "store (snd (WithPGTx (run_creates repo xs) w)) = store w"
    by (simp add: WithPGTx_def rw r)
qed

lemma WithPGTx_succeeds:
  assumes "creates repo xs (store w) = Inr d"
  shows "fst (WithPGTx (run_creates repo xs) w) = None"
    and "store (snd (WithPGTx (run_creates repo xs) w)) = d"
proof -
  obtain r w' where rw: "run_creates repo xs (w\<lparr>trace := trace w @ [Begin]\<rparr>) = (r, w')"
    by (cases "run_creates repo xs (w\<lparr>trace := trace w @ [Begin]\<rparr>)")
  from run_creates_store [OF rw] assms have r: "r = None" "store w' = d" by simp_all
  show "fst (WithPGTx (run_creates repo xs) w) = None"
    by (simp add: WithPGTx_def rw r)
  show "store (snd (WithPGTx (run_creates repo xs) w)) = d"
    by (simp add: WithPGTx_def rw r)
qed

lemma WithPGTx_trace:
  "\<exists>k\<le>length xs.
      trace (snd (WithPGTx (run_creates repo xs) w)) =
        trace w @ Begin # map CreateCall (take k xs) @
        [if fst (WithPGTx (run_creates repo xs) w) = None then Commit else Rollback] \<and>
      (fst (WithPGTx (run_creates repo xs) w) = None \<longrightarrow> k = length xs) \<and>
      (fst (WithPGTx (run_creates repo xs) w) \<noteq> None \<longrightarrow> 0 < k)"
proof -
  define w0 where "w0 = w\<lparr>trace := trace w @ [Begin]\<rparr>"
  obtain r w' where rw: "run_creates repo xs w0 = (r, w')"
    by (cases "run_creates repo xs w0")
  from run_creates_trace [OF rw] obtain k where k: "k \<le> length xs"
    "trace w' = trace w0 @ map CreateCall (take k xs)"
    "r = None \<longrightarrow> k = length xs" "r \<noteq> None \<longrightarrow> 0 < k"
    by blast
  have t0: "trace w0 = trace w @ [Begin]"
    by (simp add: w0_def)
  have f: "fst (WithPGTx (run_creates repo xs) w) = r"
    using rw by (cases r) (simp_all add: WithPGTx_def w0_def)
  have t: "trace (snd (WithPGTx (run_creates repo xs) w)) =
             trace w' @ [if r = None then Commit else Rollback]"
    using rw by (cases r) (simp_all add: WithPGTx_def w0_def)
  have "k \<le> length xs \<and>
      trace (snd (WithPGTx (run_creates repo xs) w)) =
        trace w @ Begin # map CreateCall (take k xs) @
        [if fst (WithPGTx (run_creates repo xs) w) = None then Commit else Rollback] \<and>
      (fst (WithPGTx (run_creates repo xs) w) = None \<longrightarrow> k = length xs) \<and>
      (fst (WithPGTx (run_creates repo xs) w) \<noteq> None \<longrightarrow> 0 < k)"
    unfolding f t using k t0 by simp
  then show ?thesis by (rule exI [of _ k])
qed

lemma WithPGTx_trace_ex:
  "\<exists>cs. trace (snd (WithPGTx (run_creates repo xs) w)) =
      trace w @ Begin # map CreateCall cs @
      [if fst (WithPGTx (run_creates repo xs) w) = None then Commit else Rollback]"
proof -
  note WithPGTx_trace [of xs repo w]
  then show ?thesis
  proof (elim exE conjE)
    fix k
    assume "trace (snd (WithPGTx (run_creates repo xs) w)) =
        trace w @ Begin # map CreateCall (take k xs) @
        [if fst (WithPGTx (run_creates repo xs) w) = None then Commit else Rollback]"
    then show ?thesis by (rule exI [of _ "take k xs"])
  qed
qed




lemma Attribute_run: "Attribute repo pa w = WithPGTx (run_creates repo (writes (RolesIDs pa) (Permissions pa))) w"
proof -
  have "Attribute_roles repo (RolesIDs pa) (Permissions pa) = run_creates repo (writes (RolesIDs pa) (Permissions pa))"
    by (rule ext) (rule Attribute_roles_run)
  then show ?thesis by (simp add: Attribute_def)
qed

lemma AttributeToEmails_run:
  "ServiceAccounts_ForEmails repo (Emails pa) (store w) = Inr sas \<Longrightarrow>
   AttributeToEmails repo pa w = WithPGTx (run_creates repo (writes (map BaseRoleID sas) (Permissions_e pa))) w"
proof -
  have "AttributeToEmails_sas repo sas (Permissions_e pa) = run_creates repo (writes (map BaseRoleID sas) (Permissions_e pa))"
    by (rule ext) (rule AttributeToEmails_sas_run)
  then show "ServiceAccounts_ForEmails repo (Emails pa) (store w) = Inr sas \<Longrightarrow> ?thesis"
    by (simp add: AttributeToEmails_def)
qed




section \<open>The claims\<close>

subsection \<open>C1: what IsPresent decides\<close>

text \<open>
  C1. For every candidate permission \<open>p\<close> and every list \<open>H\<close> of held permissions,
  \<open>IsPresent\<close> is true exactly when one held permission \<open>h\<close> of \<open>H\<close> satisfies all
  four conditions at once: its service is \<open>"*"\<close> or the candidate's, its action is
  \<open>"*"\<close> or the candidate's, its ownership level is not less than the candidate's, and
  its hierarchy contains the candidate's. Nothing is put together from several held
  permissions.
\<close>

theorem IsPresent_single_grant:
  "IsPresent p H \<longleftrightarrow>
     (\<exists>h \<in> set H. (Service h = ''*'' \<or> Service h = Service p) \<and>
                  (Action h = ''*'' \<or> Action h = Action p) \<and>
                  \<not> Less (OwnershipLevel h) (OwnershipLevel p) \<and>
                  Contains (ResourceHierarchy h) (ResourceHierarchy p))"
  by (rule IsPresent_exists)

text \<open>
  One grant that covers the candidate is enough; two grants that cover it only between
  them (one with the service, the other with the action) are not.
\<close>

theorem IsPresent_single_grant_witness:
  "IsPresent (grant ''maestro'' ''RL'' ''deploy'' ''maestro::sniper-3d::na::sniper3d-red'')
             [grant ''maestro'' ''RL'' ''deploy'' ''maestro::sniper-3d::*''] \<and>
   \<not> IsPresent (grant ''maestro'' ''RL'' ''deploy'' ''a::b'')
               [grant ''maestro'' ''RL'' ''read'' ''a::b'', grant ''iam'' ''RL'' ''deploy'' ''a::b'']"
proof -
  have c: "Contains ''maestro::sniper-3d::*'' ''maestro::sniper-3d::na::sniper3d-red''"
    by code_simp
  have l: "\<not> Less ''RL'' ''RL''"
    by (simp add: Less_def Owner_def Lender_def)
  show ?thesis
    using c l
      IsPresent_single_grant [of "grant ''maestro'' ''RL'' ''deploy'' ''maestro::sniper-3d::na::sniper3d-red''"
        "[grant ''maestro'' ''RL'' ''deploy'' ''maestro::sniper-3d::*'']"]
      IsPresent_single_grant [of "grant ''maestro'' ''RL'' ''deploy'' ''a::b''"
        "[grant ''maestro'' ''RL'' ''read'' ''a::b'', grant ''iam'' ''RL'' ''deploy'' ''a::b'']"]
    by (simp add: grant_def)
qed

subsection \<open>C2: what Contains decides\<close>

text \<open>
  C2. For every pair of hierarchies, \<open>Contains self other\<close> is false when \<open>self\<close> has
  more segments than \<open>other\<close>; otherwise the walk over \<open>other\<close>'s segments returns true
  at the first segment \<open>"*"\<close> of \<open>self\<close>, provided the segments before it are
  \<open>other\<close>'s, returns false at the first pair of segments that differ, and returns true
  when it completes, which it does only when the two sequences of segments are the same.
  So \<open>self\<close> contains \<open>other\<close> exactly when it has no more segments and either
  terminates in a wildcard within \<open>other\<close>'s segments or has the same segments. In
  particular \<open>"a::*"\<close> contains \<open>"a::b::c"\<close> and \<open>"a::b"\<close> does not.
\<close>

theorem Contains_walk:
  "(Contains self other \<longleftrightarrow>
      length (Split self) \<le> length (Split other) \<and>
      ((\<exists>k<length (Split self).
           Split self ! k = ''*'' \<and> take k (Split self) = take k (Split other))
       \<or> Split self = Split other))
   \<and> Contains ''a::*'' ''a::b::c'' \<and> \<not> Contains ''a::b'' ''a::b::c''"
proof (intro conjI)
  show "Contains self other \<longleftrightarrow>
      length (Split self) \<le> length (Split other) \<and>
      ((\<exists>k<length (Split self).
           Split self ! k = ''*'' \<and> take k (Split self) = take k (Split other))
       \<or> Split self = Split other)"
  proof (cases "length (Split self) \<le> length (Split other)")
    case True
    then show ?thesis
      using walk_char [OF True]
      by (simp add: Contains_def buildResourceHierarchy_def Contains_loop_walk)
  next
    case False
    then show ?thesis
      by (simp add: Contains_def buildResourceHierarchy_def)
  qed
  show "Contains ''a::*'' ''a::b::c''" by code_simp
  show "\<not> Contains ''a::b'' ''a::b::c''" by code_simp
qed

theorem Contains_walk_witness:
  "Contains ''maestro::sniper-3d::*'' ''maestro::sniper-3d::na::sniper3d-red'' \<and>
   Contains ''a::b::c'' ''a::b::c'' \<and> \<not> Contains ''a::x::*'' ''a::b::c''"
proof -
  have s1: "Split ''maestro::sniper-3d::*'' = [''maestro'', ''sniper-3d'', ''*'']"
    and s2: "Split ''maestro::sniper-3d::na::sniper3d-red'' =
               [''maestro'', ''sniper-3d'', ''na'', ''sniper3d-red'']"
    and s3: "Split ''a::b::c'' = [''a'', ''b'', ''c'']"
    and s4: "Split ''a::x::*'' = [''a'', ''x'', ''*'']"
    by simp_all
  have "\<exists>k<length [''maestro'', ''sniper-3d'', ''*'']. [''maestro'', ''sniper-3d'', ''*''] ! k = ''*'' \<and>
           take k [''maestro'', ''sniper-3d'', ''*''] =
           take k [''maestro'', ''sniper-3d'', ''na'', ''sniper3d-red'']"
    by (rule exI [of _ 2]) simp
  then have a: "Contains ''maestro::sniper-3d::*'' ''maestro::sniper-3d::na::sniper3d-red''"
    using Contains_walk [of "''maestro::sniper-3d::*''" "''maestro::sniper-3d::na::sniper3d-red''"]
    by (simp add: s1 s2)
  have b: "Contains ''a::b::c'' ''a::b::c''"
    using Contains_walk [of "''a::b::c''" "''a::b::c''"] by simp
  have "\<not> (\<exists>k<length [''a'', ''x'', ''*'']. [''a'', ''x'', ''*''] ! k = ''*'' \<and>
            take k [''a'', ''x'', ''*''] = take k [''a'', ''b'', ''c''])"
  proof
    assume "\<exists>k<length [''a'', ''x'', ''*'']. [''a'', ''x'', ''*''] ! k = ''*'' \<and>
            take k [''a'', ''x'', ''*''] = take k [''a'', ''b'', ''c'']"
    then obtain k where k: "k < length [''a'', ''x'', ''*'']" "[''a'', ''x'', ''*''] ! k = ''*''"
      "take k [''a'', ''x'', ''*''] = take k [''a'', ''b'', ''c'']"
      by blast
    from k(1) have "k = 0 \<or> k = Suc 0 \<or> k = Suc (Suc 0)"
      by (auto simp: less_Suc_eq)
    then show False
      using k(2,3) by auto
  qed
  then have c: "\<not> Contains ''a::x::*'' ''a::b::c''"
    using Contains_walk [of "''a::x::*''" "''a::b::c''"] by (simp add: s3 s4)
  from a b c show ?thesis by simp
qed

subsection \<open>C3: attribution is atomic\<close>

text \<open>
  C3. \<open>Attribute\<close> runs the creates of the whole cross-product of role ids and
  templates inside one transaction, and so does \<open>AttributeToEmails\<close> once the emails are
  resolved. If one of the creates fails, its error is returned and the store is the one
  before the call: none of the call's permissions is in it and what was stored before is
  untouched. If none fails, the store is the one after all the creates. The trace of the
  call is one \<open>Begin\<close>, creates, and one \<open>Commit\<close> or \<open>Rollback\<close>.
\<close>

theorem attribution_atomic:
  "(creates repo (writes (RolesIDs pa) (Permissions pa)) (store w) = Inl err \<longrightarrow>
      fst (Attribute repo pa w) = Some err \<and> store (snd (Attribute repo pa w)) = store w) \<and>
   (creates repo (writes (RolesIDs pa) (Permissions pa)) (store w) = Inr d \<longrightarrow>
      fst (Attribute repo pa w) = None \<and> store (snd (Attribute repo pa w)) = d) \<and>
   (\<exists>cs. trace (snd (Attribute repo pa w)) =
      trace w @ Begin # map CreateCall cs @
      [if fst (Attribute repo pa w) = None then Commit else Rollback]) \<and>
   (ServiceAccounts_ForEmails repo (Emails pe) (store w) = Inr sas \<longrightarrow>
      (creates repo (writes (map BaseRoleID sas) (Permissions_e pe)) (store w) = Inl err \<longrightarrow>
         fst (AttributeToEmails repo pe w) = Some err \<and>
         store (snd (AttributeToEmails repo pe w)) = store w) \<and>
      (creates repo (writes (map BaseRoleID sas) (Permissions_e pe)) (store w) = Inr d \<longrightarrow>
         fst (AttributeToEmails repo pe w) = None \<and>
         store (snd (AttributeToEmails repo pe w)) = d) \<and>
      (\<exists>cs. trace (snd (AttributeToEmails repo pe w)) =
         trace w @ Begin # map CreateCall cs @
         [if fst (AttributeToEmails repo pe w) = None then Commit else Rollback]))"
proof (intro conjI impI)
  let ?xs = "writes (RolesIDs pa) (Permissions pa)"
  show "fst (Attribute repo pa w) = Some err" if "creates repo ?xs (store w) = Inl err"
    unfolding Attribute_run using that by (rule WithPGTx_fails)
  show "store (snd (Attribute repo pa w)) = store w" if "creates repo ?xs (store w) = Inl err"
    unfolding Attribute_run using that by (rule WithPGTx_fails)
  show "fst (Attribute repo pa w) = None" if "creates repo ?xs (store w) = Inr d"
    unfolding Attribute_run using that by (rule WithPGTx_succeeds)
  show "store (snd (Attribute repo pa w)) = d" if "creates repo ?xs (store w) = Inr d"
    unfolding Attribute_run using that by (rule WithPGTx_succeeds)
  show "\<exists>cs. trace (snd (Attribute repo pa w)) =
      trace w @ Begin # map CreateCall cs @
      [if fst (Attribute repo pa w) = None then Commit else Rollback]"
    unfolding Attribute_run by (rule WithPGTx_trace_ex)
next
  assume r: "ServiceAccounts_ForEmails repo (Emails pe) (store w) = Inr sas"
  let ?ys = "writes (map BaseRoleID sas) (Permissions_e pe)"
  note e = AttributeToEmails_run [OF r]
  show "fst (AttributeToEmails repo pe w) = Some err" if "creates repo ?ys (store w) = Inl err"
    unfolding e using that by (rule WithPGTx_fails)
  show "store (snd (AttributeToEmails repo pe w)) = store w" if "creates repo ?ys (store w) = Inl err"
    unfolding e using that by (rule WithPGTx_fails)
  show "fst (AttributeToEmails repo pe w) = None" if "creates repo ?ys (store w) = Inr d"
    unfolding e using that by (rule WithPGTx_succeeds)
  show "store (snd (AttributeToEmails repo pe w)) = d" if "creates repo ?ys (store w) = Inr d"
    unfolding e using that by (rule WithPGTx_succeeds)
  show "\<exists>cs. trace (snd (AttributeToEmails repo pe w)) =
      trace w @ Begin # map CreateCall cs @
      [if fst (AttributeToEmails repo pe w) = None then Commit else Rollback]"
    unfolding e by (rule WithPGTx_trace_ex)
qed

text \<open>
  Two roles and two templates, on a store that rejects the second write: the error is
  returned and the store holds the one permission it held before, none of the four.
\<close>

theorem attribution_atomic_witness:
  "creates (mem_repo second_write) (writes (RolesIDs two_by_two) (Permissions two_by_two))
     (store world0) = Inl ''create failed'' \<and>
   fst (Attribute (mem_repo second_write) two_by_two world0) = Some ''create failed'' \<and>
   permissions (store (snd (Attribute (mem_repo second_write) two_by_two world0))) =
     [(perm ''list'')\<lparr>RoleID := ''r0''\<rparr>] \<and>
   ServiceAccounts_ForEmails (mem_repo second_write) (Emails to_known_email) (store world0) =
     Inr (accounts (store world0)) \<and>
   fst (AttributeToEmails (mem_repo second_write) to_known_email world0) = Some ''create failed'' \<and>
   permissions (store (snd (AttributeToEmails (mem_repo second_write) to_known_email world0))) =
     [(perm ''list'')\<lparr>RoleID := ''r0''\<rparr>]"
proof -
  have h: "creates (mem_repo second_write) (writes (RolesIDs two_by_two) (Permissions two_by_two))
             (store world0) = Inl ''create failed''"
    by code_simp
  have r: "ServiceAccounts_ForEmails (mem_repo second_write) (Emails to_known_email) (store world0) =
             Inr (accounts (store world0))"
    by code_simp
  have g: "creates (mem_repo second_write)
             (writes (map BaseRoleID (accounts (store world0))) (Permissions_e to_known_email))
             (store world0) = Inl ''create failed''"
    by code_simp
  have s: "permissions (store world0) = [(perm ''list'')\<lparr>RoleID := ''r0''\<rparr>]"
    by (simp add: world0_def)
  from attribution_atomic [of "mem_repo second_write" two_by_two world0 "''create failed''" _
      to_known_email "accounts (store world0)"] h r g s
  show ?thesis by simp
qed

subsection \<open>C4: what ValidatePermission rejects\<close>

text \<open>
  C4. For every string, \<open>ValidatePermission\<close> splits it on \<open>"::"\<close> and returns false
  with an error exactly when the split gives fewer than four parts, or the second part is
  neither \<open>"RO"\<close> nor \<open>"RL"\<close>, or some part is empty; the message names the first rule
  that is violated, in this order. Otherwise it returns true and no error.
\<close>

theorem ValidatePermission_rules:
  "ValidatePermission s =
     (if length (Split s) < 4 then
        (False, Some ''Incomplete permission. Expected format: Service::OwnershipLevel::Action::{ResourceHierarchy}'')
      else if Split s ! 1 \<noteq> ''RO'' \<and> Split s ! 1 \<noteq> ''RL'' then
        (False, Some ''OwnershipLevel needs to be RO or RL'')
      else if [] \<in> set (Split s) then (False, Some ''No parts can be empty'')
      else (True, None))
   \<and> ((fst (ValidatePermission s) = False \<and> snd (ValidatePermission s) \<noteq> None) \<longleftrightarrow>
        (length (Split s) < 4 \<or>
         (4 \<le> length (Split s) \<and> Split s ! 1 \<noteq> ''RO'' \<and> Split s ! 1 \<noteq> ''RL'') \<or>
         [] \<in> set (Split s)))
   \<and> (fst (ValidatePermission s) = True \<longleftrightarrow> snd (ValidatePermission s) = None)"
  by (simp add: ValidatePermission_def ValidatePermission_parts_eq Owner_def Lender_def Let_def)

theorem ValidatePermission_rules_witness:
  "ValidatePermission ''iam::RO::create::role'' = (True, None) \<and>
   ValidatePermission ''iam::RX::create::role'' =
     (False, Some ''OwnershipLevel needs to be RO or RL'') \<and>
   ValidatePermission ''iam::RO::create'' =
     (False, Some ''Incomplete permission. Expected format: Service::OwnershipLevel::Action::{ResourceHierarchy}'') \<and>
   ValidatePermission ''iam::RO::::role'' = (False, Some ''No parts can be empty'')"
  using ValidatePermission_rules [of "''iam::RO::create::role''"]
    ValidatePermission_rules [of "''iam::RX::create::role''"]
    ValidatePermission_rules [of "''iam::RO::create''"]
    ValidatePermission_rules [of "''iam::RO::::role''"]
  by simp

subsection \<open>C5: building and printing a permission\<close>

text \<open>
  C5. For every string that splits on \<open>"::"\<close> into four parts or more, none of them
  empty, with \<open>"RO"\<close> or \<open>"RL"\<close> as the second part, \<open>BuildPermission\<close> succeeds and
  \<open>String\<close> of the permission it builds is the string again. With exactly four parts the
  hierarchy is the fourth part; with more, the parts from the fourth on are joined again.
\<close>

theorem BuildPermission_roundtrip:
  assumes "4 \<le> length (Split s)" and "[] \<notin> set (Split s)"
    and "Split s ! 1 = ''RO'' \<or> Split s ! 1 = ''RL''"
  shows "\<exists>p. BuildPermission s = (p, None) \<and> String p = s \<and>
             ResourceHierarchy p = Join (drop 3 (Split s))"
proof -
  have v: "ValidatePermission s = (True, None)"
    using assms
    by (auto simp add: ValidatePermission_def ValidatePermission_parts_eq Owner_def Lender_def Let_def)
  obtain a b c d rest where sp: "Split s = a # b # c # d # rest"
    using assms(1) by (auto simp: numeral_eq_Suc Suc_le_length_iff)
  have "Join (Split s) = a @ ''::'' @ b @ ''::'' @ c @ ''::'' @ Join (d # rest)"
    unfolding sp by (rule Join_4) simp
  then have "s = a @ ''::'' @ b @ ''::'' @ c @ ''::'' @ Join (d # rest)"
    by (simp add: Join_Split)
  then show ?thesis
    using v sp by (simp add: BuildPermission_def String_def Let_def)
qed

theorem BuildPermission_roundtrip_witness:
  "length (Split ''iam::RO::create::role'') = 4 \<and>
   (\<exists>p. BuildPermission ''iam::RO::create::role'' = (p, None) \<and>
        String p = ''iam::RO::create::role'' \<and> ResourceHierarchy p = ''role'') \<and>
   length (Split ''maestro::RL::deploy::maestro::sniper-3d::*'') = 6 \<and>
   (\<exists>p. BuildPermission ''maestro::RL::deploy::maestro::sniper-3d::*'' = (p, None) \<and>
        String p = ''maestro::RL::deploy::maestro::sniper-3d::*'' \<and>
        ResourceHierarchy p = ''maestro::sniper-3d::*'')"
  using BuildPermission_roundtrip [of "''iam::RO::create::role''"]
    BuildPermission_roundtrip [of "''maestro::RL::deploy::maestro::sniper-3d::*''"]
  by simp

subsection \<open>C6: what PermissionMatches enumerates\<close>

text \<open>
  C6, as the code has it. For every hierarchy, \<open>PermissionMatches\<close> returns \<open>["*"]\<close> when
  the hierarchy is exactly \<open>"*"\<close>; otherwise the universal wildcard \<open>"*"\<close>, then for
  \<open>i = 1, 2, \<dots>\<close> the first \<open>i\<close> segments followed by \<open>"::*"\<close>, stopping before the
  first segment after the first one that is itself \<open>"*"\<close>, and last the literal
  hierarchy. The first segment is never examined: a hierarchy that begins with a segment
  \<open>"*"\<close> and goes on is enumerated like any other.
\<close>

theorem PermissionMatches_enumerates:
  "PermissionMatches rh =
     (if rh = ''*'' then [''*'']
      else ''*'' #
           map (\<lambda>i. Join (take i (Split rh)) @ ''::*'')
               [1 ..< 1 + length (takeWhile (\<lambda>s. s \<noteq> ''*'') (tl (Split rh)))] @
           [rh])"
  by (simp add: PermissionMatches_def PermissionMatches_loop_eq drop_Suc)

theorem PermissionMatches_enumerates_witness:
  "PermissionMatches ''x::y::z'' = [''*'', ''x::*'', ''x::y::*'', ''x::y::z''] \<and>
   PermissionMatches ''x::y::*'' = [''*'', ''x::*'', ''x::y::*''] \<and>
   PermissionMatches ''*'' = [''*'']"
  using PermissionMatches_enumerates [of "''x::y::z''"]
    PermissionMatches_enumerates [of "''x::y::*''"]
    PermissionMatches_enumerates [of "''*''"]
  by (simp add: upt_rec)

text \<open>
  C6 as the claim states it, stopping before any segment that is itself \<open>"*"\<close>, fails
  for \<open>"*::a"\<close>: its first segment is \<open>"*"\<close>, and the code still returns the prefix
  \<open>"*::*"\<close>.
\<close>

theorem PermissionMatches_leading_wildcard:
  "PermissionMatches ''*::a'' = [''*'', ''*::*'', ''*::a''] \<and>
   PermissionMatches_spec ''*::a'' = [''*'', ''*::a''] \<and>
   PermissionMatches ''*::a'' \<noteq> PermissionMatches_spec ''*::a''"
  by code_simp

subsection \<open>C7: IsPresent is monotone\<close>

text \<open>
  C7. If a permission is present in a held list, it is present in every list that holds
  at least the same permissions; and two lists that hold the same permissions, in whatever
  order, give the same answer.
\<close>

theorem IsPresent_monotone:
  "(IsPresent p H \<and> set H \<subseteq> set H' \<longrightarrow> IsPresent p H') \<and>
   (set H = set H' \<longrightarrow> IsPresent p H = IsPresent p H')"
  unfolding IsPresent_exists by blast

theorem IsPresent_monotone_witness:
  "IsPresent (grant ''iam'' ''RL'' ''read'' ''a::b'') [grant ''iam'' ''RO'' ''*'' ''a::*''] \<and>
   IsPresent (grant ''iam'' ''RL'' ''read'' ''a::b'')
     [grant ''x'' ''RL'' ''y'' ''z'', grant ''iam'' ''RO'' ''*'' ''a::*''] \<and>
   IsPresent (grant ''iam'' ''RL'' ''read'' ''a::b'')
     [grant ''iam'' ''RO'' ''*'' ''a::*'', grant ''x'' ''RL'' ''y'' ''z'']"
proof -
  have a: "IsPresent (grant ''iam'' ''RL'' ''read'' ''a::b'') [grant ''iam'' ''RO'' ''*'' ''a::*'']"
    by code_simp
  have b: "set [grant ''iam'' ''RO'' ''*'' ''a::*'']
             \<subseteq> set [grant ''x'' ''RL'' ''y'' ''z'', grant ''iam'' ''RO'' ''*'' ''a::*'']"
    by simp
  have c: "set [grant ''x'' ''RL'' ''y'' ''z'', grant ''iam'' ''RO'' ''*'' ''a::*''] =
           set [grant ''iam'' ''RO'' ''*'' ''a::*'', grant ''x'' ''RL'' ''y'' ''z'']"
    by auto
  from a b
    IsPresent_monotone [of "grant ''iam'' ''RL'' ''read'' ''a::b''" "[grant ''iam'' ''RO'' ''*'' ''a::*'']"
      "[grant ''x'' ''RL'' ''y'' ''z'', grant ''iam'' ''RO'' ''*'' ''a::*'']"]
  have d: "IsPresent (grant ''iam'' ''RL'' ''read'' ''a::b'')
     [grant ''x'' ''RL'' ''y'' ''z'', grant ''iam'' ''RO'' ''*'' ''a::*'']"
    by blast
  from c d
    IsPresent_monotone [of "grant ''iam'' ''RL'' ''read'' ''a::b''"
      "[grant ''x'' ''RL'' ''y'' ''z'', grant ''iam'' ''RO'' ''*'' ''a::*'']"
      "[grant ''iam'' ''RO'' ''*'' ''a::*'', grant ''x'' ''RL'' ''y'' ''z'']"]
  have e: "IsPresent (grant ''iam'' ''RL'' ''read'' ''a::b'')
     [grant ''iam'' ''RO'' ''*'' ''a::*'', grant ''x'' ''RL'' ''y'' ''z'']"
    by blast
  from a d e show ?thesis by blast
qed

subsection \<open>C8: an email that does not resolve\<close>

text \<open>
  C8. If the resolution of the emails to service accounts fails, \<open>AttributeToEmails\<close>
  returns that error and does nothing else: the store is unchanged and the trace is
  unchanged, so no transaction was begun and no create was issued.
\<close>

theorem AttributeToEmails_resolution_error:
  "ServiceAccounts_ForEmails repo (Emails pa) (store w) = Inl err \<Longrightarrow>
     AttributeToEmails repo pa w = (Some err, w) \<and>
     store (snd (AttributeToEmails repo pa w)) = store w \<and>
     trace (snd (AttributeToEmails repo pa w)) = trace w"
  by (simp add: AttributeToEmails_def)

theorem AttributeToEmails_resolution_error_witness:
  "ServiceAccounts_ForEmails (mem_repo no_write) (Emails to_unknown_email) (store world0) =
     Inl ''Service Account not found for email a@x.com'' \<and>
   AttributeToEmails (mem_repo no_write) to_unknown_email world0 =
     (Some ''Service Account not found for email a@x.com'', world0) \<and>
   trace (snd (AttributeToEmails (mem_repo no_write) to_unknown_email world0)) = []"
proof -
  have h: "ServiceAccounts_ForEmails (mem_repo no_write) (Emails to_unknown_email) (store world0) =
     Inl ''Service Account not found for email a@x.com''"
    by code_simp
  have t: "trace world0 = []"
    by (simp add: world0_def)
  from AttributeToEmails_resolution_error [OF h] h t show ?thesis by simp
qed

subsection \<open>C9: the creates a call issues\<close>




subsection \<open>C10: the size comparison comes first\<close>

text \<open>
  C10. If \<open>self\<close> splits into more segments than \<open>other\<close>, \<open>Contains self other\<close> is
  false, also when \<open>self\<close> ends in a wildcard: the sizes are compared before any segment
  is looked at. So \<open>"a::*"\<close> does not contain \<open>"a"\<close>.
\<close>

theorem Contains_size_first:
  "(length (Split self) > length (Split other) \<longrightarrow> \<not> Contains self other)
   \<and> \<not> Contains ''a::*'' ''a''"
  by (simp add: Contains_def buildResourceHierarchy_def)

theorem Contains_size_first_witness:
  "length (Split ''a::b::*'') > length (Split ''a::b'') \<and> \<not> Contains ''a::b::*'' ''a::b''"
  using Contains_size_first [of "''a::b''" "''a::b::*''"] by simp

end
